theory Spec2Isabelle
  imports Complex_Main "HOL-Library.Log_Nat" "HOL-Library.Sublist"
begin

section \<open>Data model of the map front end\<close>

text \<open>
  The repository holds three revisions of one front-end script. The development follows
  the latest one (with hierarchies, \<^verbatim>\<open>extractIdsFromPath\<close>, \<^verbatim>\<open>showRouteInfo\<close> and
  \<^verbatim>\<open>clearRoute\<close>); the hover, click and generate handlers are the same in all three.
  Module-level variables and the parts of the page and of the map surface the script
  writes to are the fields of one record; every handler is a function from state to
  state, and the event loop is a fold of the handlers over the events.
\<close>

subsection \<open>Identifiers, coordinates and the selection array\<close>

text \<open>A finite JavaScript number is modelled by its exact value.\<close>

type_synonym number = rat

type_synonym lnglat = "number \<times> number"

text \<open>
  A segment identifier is a JSON number: the datasets carry OSM way numbers, and the map
  reports the identifiers of its features as numbers. Equality of the datatype is
  JavaScript's \<^verbatim>\<open>===\<close> on numbers. The map surface keeps feature state under
  \<^verbatim>\<open>String(id)\<close>, which tells any two numbers apart, so it holds one set of flags
  per identifier. \<^verbatim>\<open>if (item.id)\<close> tests truthiness: zero is falsy, as is a missing
  field.
\<close>

datatype ident = IdNum number

fun truthy :: "ident option \<Rightarrow> bool" where
  "truthy None = False"
| "truthy (Some (IdNum n)) = (n \<noteq> 0)"

text \<open>An entry of the \<^verbatim>\<open>features\<close> array: \<^verbatim>\<open>{id: ..., coordinates: ...}\<close>.\<close>

record selection =
  feature_id :: ident
  coordinates :: "lnglat option"

subsection \<open>The grouped-paths dataset\<close>

text \<open>
  \<^verbatim>\<open>{ "hierarchy": {name: [group name, ...]}, "paths": {name: [member | [member, ...], ...]} }\<close>.
  Either top-level key may be missing (\<^verbatim>\<open>groupedPaths\<close> starts as \<^verbatim>\<open>{}\<close>).
  A member is an object whose \<^verbatim>\<open>id\<close> field may be absent. The two inner objects
  are given by their own keys.
\<close>

datatype member = Member (member_id: "ident option")

datatype item = Flat member | Nested "member list"

record catalog =
  hierarchy :: "(string \<rightharpoonup> string list) option"
  paths :: "(string \<rightharpoonup> item list) option"

text \<open>
  A lookup \<^verbatim>\<open>obj[name]\<close> on a parsed JSON object finds an own key first and then
  what every object inherits from \<^verbatim>\<open>Object.prototype\<close>. The inherited
  properties (the standard ones and those of Annex B of the language standard) are
  functions, or for \<^verbatim>\<open>__proto__\<close> the prototype object: truthy, and not arrays.
\<close>

definition objectPrototypeNames :: "string list" where
  "objectPrototypeNames =
     [''constructor'', ''hasOwnProperty'', ''isPrototypeOf'', ''propertyIsEnumerable'',
      ''toLocaleString'', ''toString'', ''valueOf'', ''__proto__'',
      ''__defineGetter__'', ''__defineSetter__'', ''__lookupGetter__'', ''__lookupSetter__'']"

datatype 'a property = Own 'a | Inherited | Missing

definition getProperty :: "(string \<rightharpoonup> 'a) \<Rightarrow> string \<Rightarrow> 'a property" where
  "getProperty obj name =
     (case obj name of
        Some v \<Rightarrow> Own v
      | None \<Rightarrow> (if name \<in> set objectPrototypeNames then Inherited else Missing))"

text \<open>An exception thrown by the script.\<close>

datatype js_error = TypeError

subsection \<open>Feature state on the map surface\<close>

text \<open>
  \<^verbatim>\<open>map.setFeatureState({source: 'cycleways', id}, {flag: v})\<close> merges one flag into
  the state of feature \<^verbatim>\<open>id\<close>; a flag never written reads as false (the default of
  the layer's paint expression).
\<close>

record fstate =
  hover :: bool
  selected :: bool

subsection \<open>Route requests and responses\<close>

datatype featureCollection = FeatureCollection (fc_features: "string list")

record request =
  req_start :: lnglat
  req_end :: lnglat
  following_weight :: string
  preferred_routes :: "ident list"

text \<open>
  The two accepted response bodies: an object with a \<^verbatim>\<open>geojson\<close> field,
  \<^verbatim>\<open>distance_meters\<close> and \<^verbatim>\<open>travel_time_seconds\<close>, or a bare feature
  collection. \<^verbatim>\<open>data.geojson\<close> is truthy for the first and undefined for the second.
\<close>

datatype body =
  WithMetrics (geojson: featureCollection) (distance_meters: number) (travel_time_seconds: number)
| Bare featureCollection

text \<open>
  How a \<^verbatim>\<open>fetch\<close> settles: the transport fails, the status is not 2xx
  (\<^verbatim>\<open>!response.ok\<close>), the body is not JSON, or a body arrives.
\<close>

datatype outcome = NetworkError | HttpError nat | BadJson | Ok body

datatype role = StartRole | EndRole

subsection \<open>The state\<close>

record app_state =
  features :: "selection list"
  startPoint :: "lnglat option"
  endPoint :: "lnglat option"
  groupedPaths :: catalog
  hoveredFeatureId :: "ident option"
  previous_cursor :: string
  cursor :: string
  featureState :: "ident \<Rightarrow> fstate"
  onceClick :: "role list"
  routeData :: featureCollection
  routeDistance :: string
  routeTime :: string
  routeInfoHidden :: bool
  buttonPulsing :: bool
  buttonDisabled :: bool
  buttonText :: string
  slider :: string
  inFlight :: "request list"
  alerts :: "string list"

definition setHover :: "ident \<Rightarrow> bool \<Rightarrow> app_state \<Rightarrow> app_state" where
  "setHover i v s = s\<lparr>featureState := (featureState s)(i := (featureState s i)\<lparr>hover := v\<rparr>)\<rparr>"

definition setSelected :: "ident \<Rightarrow> bool \<Rightarrow> app_state \<Rightarrow> app_state" where
  "setSelected i v s = s\<lparr>featureState := (featureState s)(i := (featureState s i)\<lparr>selected := v\<rparr>)\<rparr>"

definition alert :: "string \<Rightarrow> app_state \<Rightarrow> app_state" where
  "alert msg s = s\<lparr>alerts := alerts s @ [msg]\<rparr>"

section \<open>Hover and click handlers\<close>

text \<open>\<^verbatim>\<open>map.on('mousemove', 'cycleways-layer', ...)\<close>; the event carries the identifiers
  of the features under the pointer.\<close>

definition mousemove :: "ident list \<Rightarrow> app_state \<Rightarrow> app_state" where
  "mousemove fs s =
     (case fs of
        [] \<Rightarrow> s
      | f # _ \<Rightarrow>
          let s1 = (case hoveredFeatureId s of None \<Rightarrow> s | Some h \<Rightarrow> setHover h False s);
              s2 = s1\<lparr>hoveredFeatureId := Some f\<rparr>;
              s3 = setHover f True s2;
              s4 = (if cursor s3 \<noteq> ''pointer'' then s3\<lparr>previous_cursor := cursor s3\<rparr> else s3)
          in s4\<lparr>cursor := ''pointer''\<rparr>)"

text \<open>\<^verbatim>\<open>map.on('mouseleave', 'cycleways-layer', ...)\<close>.\<close>

definition mouseleave :: "app_state \<Rightarrow> app_state" where
  "mouseleave s =
     (let s1 = (case hoveredFeatureId s of None \<Rightarrow> s | Some h \<Rightarrow> setHover h False s);
          s2 = s1\<lparr>hoveredFeatureId := None\<rparr>
      in s2\<lparr>cursor := previous_cursor s2\<rparr>)"

text \<open>
  \<^verbatim>\<open>features.findIndex(feature => feature.id === x)\<close>: the first index whose entry
  has the identifier, or none (\<^verbatim>\<open>-1\<close>).
\<close>

fun findIndex :: "ident \<Rightarrow> selection list \<Rightarrow> nat option" where
  "findIndex x [] = None"
| "findIndex x (f # fs) =
     (if feature_id f = x then Some 0
      else (case findIndex x fs of None \<Rightarrow> None | Some n \<Rightarrow> Some (Suc n)))"

text \<open>\<^verbatim>\<open>features.splice(i, 1)\<close> for an index in range.\<close>

definition splice1 :: "nat \<Rightarrow> 'a list \<Rightarrow> 'a list" where
  "splice1 i xs = take i xs @ drop (Suc i) xs"

text \<open>The permanent \<^verbatim>\<open>map.on('click', ...)\<close> handler: toggles the hovered segment.\<close>

definition clickToggle :: "lnglat \<Rightarrow> app_state \<Rightarrow> app_state" where
  "clickToggle c s =
     (case hoveredFeatureId s of
        None \<Rightarrow> s
      | Some h \<Rightarrow>
          (case findIndex h (features s) of
             Some i \<Rightarrow> setSelected h False (s\<lparr>features := splice1 i (features s)\<rparr>)
           | None \<Rightarrow>
               setSelected h True
                 (s\<lparr>features := features s @ [\<lparr>feature_id = h, coordinates = Some c\<rparr>]\<rparr>)))"

text \<open>
  \<^verbatim>\<open>setStart\<close> and \<^verbatim>\<open>setEnd\<close> register a one-shot click handler; the next click runs
  the permanent handler and then every pending one-shot handler, in registration order.
\<close>

definition setStart :: "app_state \<Rightarrow> app_state" where
  "setStart s = s\<lparr>cursor := ''crosshair'', onceClick := onceClick s @ [StartRole]\<rparr>"

definition setEnd :: "app_state \<Rightarrow> app_state" where
  "setEnd s = s\<lparr>cursor := ''crosshair'', onceClick := onceClick s @ [EndRole]\<rparr>"

fun placeMarker :: "lnglat \<Rightarrow> app_state \<Rightarrow> role \<Rightarrow> app_state" where
  "placeMarker c s StartRole = s\<lparr>startPoint := Some c, cursor := []\<rparr>"
| "placeMarker c s EndRole = s\<lparr>endPoint := Some c, cursor := []\<rparr>"

definition click :: "lnglat \<Rightarrow> app_state \<Rightarrow> app_state" where
  "click c s =
     (let s1 = clickToggle c s
      in (foldl (placeMarker c) s1 (onceClick s1))\<lparr>onceClick := []\<rparr>)"

text \<open>\<^verbatim>\<open>deselectAllRoutes\<close>.\<close>

definition deselectAllRoutes :: "app_state \<Rightarrow> app_state" where
  "deselectAllRoutes s =
     (foldl (\<lambda>st f. setSelected (feature_id f) False st) s (features s))\<lparr>features := []\<rparr>"

section \<open>Group selection\<close>

text \<open>
  \<^verbatim>\<open>extractIdsFromPath(pathKey)\<close>. A group of the dataset is an array, and its
  identifiers are pushed in order, with no check for repetition. An inherited property
  passes the truthiness test and fails \<^verbatim>\<open>Array.isArray\<close>, so it contributes
  nothing.
\<close>

fun memberIds :: "member list \<Rightarrow> ident list" where
  "memberIds [] = []"
| "memberIds (m # ms) =
     (if truthy (member_id m) then the (member_id m) # memberIds ms else memberIds ms)"

fun itemIds :: "item \<Rightarrow> ident list" where
  "itemIds (Nested ms) = memberIds ms"
| "itemIds (Flat m) = (if truthy (member_id m) then [the (member_id m)] else [])"

definition extractIdsFromPath :: "catalog \<Rightarrow> string \<Rightarrow> ident list" where
  "extractIdsFromPath g pathKey =
     (case paths g of
        None \<Rightarrow> []
      | Some ps \<Rightarrow>
          (case getProperty ps pathKey of
             Missing \<Rightarrow> []
           | Inherited \<Rightarrow> []
           | Own pathGroup \<Rightarrow> concat (map itemIds pathGroup)))"

text \<open>
  \<^verbatim>\<open>groupKey.startsWith(p)\<close>, and \<^verbatim>\<open>groupKey.replace(p, '')\<close> where it is used:
  behind the \<^verbatim>\<open>startsWith\<close> test the first occurrence of \<open>p\<close> is the prefix itself.
\<close>

definition startsWith :: "string \<Rightarrow> string \<Rightarrow> bool" where
  "startsWith s p = (take (length p) s = p)"

definition dropPrefix :: "string \<Rightarrow> string \<Rightarrow> string" where
  "dropPrefix p s = drop (length p) s"

text \<open>
  The list \<^verbatim>\<open>idsToSelect\<close> that \<^verbatim>\<open>selectPathGroup\<close> computes from the
  reference. Under a hierarchy name that is an inherited property, the truthiness test
  passes and \<^verbatim>\<open>childPaths.forEach\<close> is not a function: the call throws a
  \<^verbatim>\<open>TypeError\<close>.
\<close>

definition idsToSelect :: "catalog \<Rightarrow> string \<Rightarrow> js_error + ident list" where
  "idsToSelect g groupKey =
     (if startsWith groupKey ''hierarchy:'' then
        (case hierarchy g of
           None \<Rightarrow> Inr []
         | Some hs \<Rightarrow>
             (case getProperty hs (dropPrefix ''hierarchy:'' groupKey) of
                Missing \<Rightarrow> Inr []
              | Inherited \<Rightarrow> Inl TypeError
              | Own childPaths \<Rightarrow> Inr (concat (map (extractIdsFromPath g) childPaths))))
      else if startsWith groupKey ''path:'' then
        Inr (extractIdsFromPath g (dropPrefix ''path:'' groupKey))
      else Inr [])"

text \<open>The \<^verbatim>\<open>idsToSelect.forEach\<close> loop: push and flag every identifier not yet in
  \<^verbatim>\<open>features\<close>.\<close>

definition addOne :: "app_state \<Rightarrow> ident \<Rightarrow> app_state" where
  "addOne s i =
     (if List.find (\<lambda>feature. feature_id feature = i) (features s) = None then
        setSelected i True (s\<lparr>features := features s @ [\<lparr>feature_id = i, coordinates = None\<rparr>]\<rparr>)
      else s)"

definition addMany :: "ident list \<Rightarrow> app_state \<Rightarrow> app_state" where
  "addMany ids s = foldl addOne s ids"

text \<open>
  \<^verbatim>\<open>selectPathGroup(groupKey)\<close>: it returns with the new state, or throws. It throws
  while resolving, before the loop has written anything.
\<close>

definition selectPathGroup :: "string \<Rightarrow> app_state \<Rightarrow> js_error + app_state" where
  "selectPathGroup groupKey s =
     (if groupKey = [] then Inr s
      else (case idsToSelect (groupedPaths s) groupKey of
              Inl e \<Rightarrow> Inl e
            | Inr ids \<Rightarrow> Inr (addMany ids s)))"

text \<open>The dropdown's \<^verbatim>\<open>onchange\<close> handler.\<close>

definition pathGroupsOnchange :: "string \<Rightarrow> app_state \<Rightarrow> js_error + app_state" where
  "pathGroupsOnchange v s = (if v \<noteq> [] then selectPathGroup v s else Inr s)"

text \<open>
  The state of the page after such a call made in state \<open>s\<close>: the returned one, or \<open>s\<close>
  itself when the call threw (the exception leaves the handler uncaught and the page
  goes on).
\<close>

definition stateAfter :: "app_state \<Rightarrow> js_error + app_state \<Rightarrow> app_state" where
  "stateAfter s r = (case r of Inl e \<Rightarrow> s | Inr s' \<Rightarrow> s')"

definition afterSelectPathGroup :: "string \<Rightarrow> app_state \<Rightarrow> app_state" where
  "afterSelectPathGroup groupKey s = stateAfter s (selectPathGroup groupKey s)"

section \<open>Route information panel\<close>

subsection \<open>Number operations\<close>

text \<open>
  Numbers are IEEE binary64 values. Comparison, \<^verbatim>\<open>%\<close>, \<^verbatim>\<open>Math.floor\<close> and
  \<^verbatim>\<open>Math.round\<close> are exact on them; a division rounds the exact quotient to the
  nearest binary64 value, ties to the even significand. \<open>toDouble\<close> is that rounding
  (subnormals included; the quotients taken here never overflow).
\<close>

definition pow2 :: "int \<Rightarrow> rat" where
  "pow2 e = (if 0 \<le> e then 2 ^ nat e else 1 / 2 ^ nat (- e))"

text \<open>The binary exponent of a positive number: the \<open>e\<close> with \<open>2^e \<le> x < 2^(e+1)\<close>.\<close>

definition binexp :: "rat \<Rightarrow> int" where
  "binexp x =
     (let (a, b) = quotient_of x; e0 = bitlen a - bitlen b
      in if pow2 e0 \<le> x then e0 else e0 - 1)"

definition roundHalfEven :: "rat \<Rightarrow> int" where
  "roundHalfEven y =
     (let f = \<lfloor>y\<rfloor>; r = y - of_int f
      in if r < 1 / 2 then f else if 1 / 2 < r then f + 1 else if even f then f else f + 1)"

definition toDouble :: "rat \<Rightarrow> number" where
  "toDouble x =
     (if x = 0 then 0
      else let e = max (binexp \<bar>x\<bar>) (- 1022);
               m = roundHalfEven (\<bar>x\<bar> * pow2 (52 - e))
           in sgn x * of_int m * pow2 (e - 52))"

definition js_div :: "number \<Rightarrow> number \<Rightarrow> number" where
  "js_div x y = toDouble (x / y)"

text \<open>\<^verbatim>\<open>x % y\<close>: the remainder of the truncated quotient, exact.\<close>

definition js_mod :: "number \<Rightarrow> number \<Rightarrow> number" where
  "js_mod x y = x - y * of_int (if 0 \<le> x / y then \<lfloor>x / y\<rfloor> else \<lceil>x / y\<rceil>)"

text \<open>\<^verbatim>\<open>Math.round\<close>: the nearest integer, a tie going up.\<close>

definition Math_round :: "number \<Rightarrow> int" where
  "Math_round x = \<lfloor>x + 1 / 2\<rfloor>"

definition Math_floor :: "number \<Rightarrow> int" where
  "Math_floor x = \<lfloor>x\<rfloor>"

text \<open>The decimal digits of a natural number.\<close>

definition digit :: "nat \<Rightarrow> char" where
  "digit d = ''0123456789'' ! d"

function showNat :: "int \<Rightarrow> string" where
  "showNat v = (if v < 10 then [digit (nat v)] else showNat (v div 10) @ [digit (nat (v mod 10))])"
  by pat_completeness auto
termination
  by (relation "measure nat") auto

declare showNat.simps [simp del]

text \<open>
  How an integer-valued number prints inside a template literal (the language's
  number-to-string conversion). Below \<open>2^53\<close> these are its digits. From there on they
  are the digits of the integer with the fewest significant digits that reads back as the
  same number, the nearest such one: \<open>shortest v j\<close> looks for it among the multiples of
  \<open>10^j\<close>, then of \<open>10^(j-1)\<close>, and so on. With more than 21 digits it is written in
  exponent notation.
\<close>

definition readsBack :: "int \<Rightarrow> int \<Rightarrow> bool" where
  "readsBack w v = (toDouble (of_int w) = of_int v)"

definition nearest :: "int \<Rightarrow> int \<Rightarrow> int \<Rightarrow> int option" where
  "nearest v p f =
     (let lo = f * p; hi = (f + 1) * p
      in if readsBack lo v \<and> readsBack hi v then
           (if v - lo < hi - v then Some lo
            else if hi - v < v - lo then Some hi
            else if even f then Some lo else Some hi)
         else if readsBack lo v then Some lo
         else if readsBack hi v then Some hi
         else None)"

fun shortest :: "int \<Rightarrow> nat \<Rightarrow> int" where
  "shortest v 0 = v"
| "shortest v (Suc j) =
     (case nearest v (10 ^ Suc j) (v div 10 ^ Suc j) of
        Some w \<Rightarrow> w
      | None \<Rightarrow> shortest v j)"

fun stripZeros :: "string \<Rightarrow> string" where
  "stripZeros [] = []"
| "stripZeros (c # cs) = (if c = CHR ''0'' then stripZeros cs else c # cs)"

definition exponentForm :: "string \<Rightarrow> string" where
  "exponentForm ds =
     (let sig = rev (stripZeros (rev ds))
      in (case sig of
            [] \<Rightarrow> []
          | c # cs \<Rightarrow> (if cs = [] then [c] else c # CHR ''.'' # cs))
         @ ''e+'' @ showNat (int (length ds) - 1))"

definition natToString :: "int \<Rightarrow> string" where
  "natToString v =
     (if v < 2 ^ 53 then showNat v
      else let ds = showNat (shortest v (length (showNat v) - 1))
           in if length ds \<le> 21 then ds else exponentForm ds)"

definition intToString :: "int \<Rightarrow> string" where
  "intToString k = (if k < 0 then CHR ''-'' # natToString (- k) else natToString k)"

text \<open>
  \<^verbatim>\<open>x.toFixed(1)\<close>: below \<open>10^21\<close>, the integer \<open>n\<close> with \<open>n / 10\<close> nearest to
  the exact value of \<open>x\<close>, the larger one on a tie, printed with one digit after the point;
  from \<open>10^21\<close> on, the number-to-string conversion of \<open>x\<close>.
\<close>

definition tenths :: "number \<Rightarrow> int" where
  "tenths x = \<lfloor>\<bar>x\<bar> * 10 + 1 / 2\<rfloor>"

definition toFixed1 :: "number \<Rightarrow> string" where
  "toFixed1 x =
     (let m = (if 10 ^ 21 \<le> \<bar>x\<bar> then natToString \<lfloor>\<bar>x\<bar>\<rfloor>
               else showNat (tenths x div 10) @ ''.'' @ [digit (nat (tenths x mod 10))])
      in if x < 0 then CHR ''-'' # m else m)"

subsection \<open>\<^verbatim>\<open>showRouteInfo\<close>\<close>

text \<open>The two texts \<^verbatim>\<open>showRouteInfo\<close> builds: \<^verbatim>\<open>distanceText\<close> and \<^verbatim>\<open>timeText\<close>.\<close>

definition distanceText :: "number \<Rightarrow> string" where
  "distanceText distanceMeters =
     (if 1000 \<le> distanceMeters then toFixed1 (js_div distanceMeters 1000) @ '' km''
      else intToString (Math_round distanceMeters) @ '' m'')"

definition timeText :: "number \<Rightarrow> string" where
  "timeText travelTimeSeconds =
     (if 3600 \<le> travelTimeSeconds then
        (let hours = Math_floor (js_div travelTimeSeconds 3600);
             minutes = Math_round (js_div (js_mod travelTimeSeconds 3600) 60)
         in intToString hours @ ''h '' @ intToString minutes @ ''m'')
      else if 60 \<le> travelTimeSeconds then
        (let minutes = Math_round (js_div travelTimeSeconds 60)
         in intToString minutes @ '' min'')
      else intToString (Math_round travelTimeSeconds) @ '' sec'')"

definition showRouteInfo :: "number \<Rightarrow> number \<Rightarrow> app_state \<Rightarrow> app_state" where
  "showRouteInfo distanceMeters travelTimeSeconds s =
     s\<lparr>routeDistance := distanceText distanceMeters,
       routeTime := timeText travelTimeSeconds,
       routeInfoHidden := False\<rparr>"

definition hideRouteInfo :: "app_state \<Rightarrow> app_state" where
  "hideRouteInfo s = s\<lparr>routeInfoHidden := True\<rparr>"

definition clearRoute :: "app_state \<Rightarrow> app_state" where
  "clearRoute s = hideRouteInfo (s\<lparr>routeData := FeatureCollection []\<rparr>)"

section \<open>Route generation\<close>

text \<open>
  \<^verbatim>\<open>generateRoute\<close> calls \<^verbatim>\<open>fetch\<close> and returns at once: the request joins the
  requests in flight, and its \<^verbatim>\<open>then\<close>/\<^verbatim>\<open>catch\<close> callbacks run when it settles.
\<close>

definition generateRoute ::
  "lnglat \<Rightarrow> lnglat \<Rightarrow> ident list \<Rightarrow> string \<Rightarrow> app_state \<Rightarrow> app_state" where
  "generateRoute start end' preferredRoutes followingWeight s =
     s\<lparr>inFlight := inFlight s @
        [\<lparr>req_start = start, req_end = end', following_weight = followingWeight,
          preferred_routes = preferredRoutes\<rparr>]\<rparr>"

definition errorMessage :: string where
  "errorMessage = ''Error generating route. Please check if the backend server is running.''"

text \<open>The callbacks of \<^verbatim>\<open>generateRoute\<close>, run on the outcome of its request.\<close>

definition routeSettled :: "outcome \<Rightarrow> app_state \<Rightarrow> app_state" where
  "routeSettled out s =
     (case out of
        Ok data \<Rightarrow>
          (case data of
             WithMetrics g d t \<Rightarrow> showRouteInfo d t (s\<lparr>routeData := g\<rparr>)
           | Bare fc \<Rightarrow> s\<lparr>routeData := fc\<rparr>)
      | _ \<Rightarrow> alert errorMessage s)"

text \<open>The \<open>n\<close>-th request in flight settles.\<close>

definition settle :: "nat \<Rightarrow> outcome \<Rightarrow> app_state \<Rightarrow> app_state" where
  "settle n out s =
     (if n < length (inFlight s)
      then routeSettled out (s\<lparr>inFlight := splice1 n (inFlight s)\<rparr>)
      else s)"

text \<open>
  The \<^verbatim>\<open>onclick\<close> handler of the generate button: the \<^verbatim>\<open>try\<close> block, then the
  \<^verbatim>\<open>finally\<close> block, which runs as soon as \<^verbatim>\<open>generateRoute\<close> has returned.
  Nothing in the \<^verbatim>\<open>try\<close> block throws (a failing request rejects its promise
  later, inside \<^verbatim>\<open>generateRoute\<close>), so the \<^verbatim>\<open>catch\<close> block is never entered.
\<close>

definition generateOnclick :: "app_state \<Rightarrow> app_state" where
  "generateOnclick s =
     (case (startPoint s, endPoint s) of
        (Some startCoords, Some endCoords) \<Rightarrow>
          let s1 = s\<lparr>buttonPulsing := True, buttonDisabled := True,
                     buttonText := ''Generating Route...''\<rparr>;
              s2 = generateRoute startCoords endCoords (map feature_id (features s1)) (slider s1) s1
          in s2\<lparr>buttonPulsing := False, buttonDisabled := False,
                 buttonText := ''Generate Route''\<rparr>
      | _ \<Rightarrow> alert ''Please set both start and end points.'' s)"

text \<open>Activating the button: a disabled button delivers no click.\<close>

definition generateClick :: "app_state \<Rightarrow> app_state" where
  "generateClick s = (if buttonDisabled s then s else generateOnclick s)"

section \<open>Events\<close>

datatype event =
  MouseMove "ident list"
| MouseLeave
| Click lnglat
| SetStart
| SetEnd
| DeselectAll
| ClearRoute
| PathGroupsChange string
| GenerateClick
| Settle nat outcome
| GroupedPathsLoaded catalog

fun step :: "app_state \<Rightarrow> event \<Rightarrow> app_state" where
  "step s (MouseMove fs) = mousemove fs s"
| "step s MouseLeave = mouseleave s"
| "step s (Click c) = click c s"
| "step s SetStart = setStart s"
| "step s SetEnd = setEnd s"
| "step s DeselectAll = deselectAllRoutes s"
| "step s ClearRoute = clearRoute s"
| "step s (PathGroupsChange v) = stateAfter s (pathGroupsOnchange v s)"
| "step s GenerateClick = generateClick s"
| "step s (Settle n out) = settle n out s"
| "step s (GroupedPathsLoaded g) = s\<lparr>groupedPaths := g\<rparr>"

definition run :: "event list \<Rightarrow> app_state \<Rightarrow> app_state" where
  "run evs s = foldl step s evs"

text \<open>
  What the script's own initialisers fix of a freshly loaded page: nothing selected,
  nothing hovered, no flag set on the map, no request sent. (The texts and classes of
  the page elements come from the HTML.)
\<close>

definition fresh :: "app_state \<Rightarrow> bool" where
  "fresh s =
     (features s = [] \<and> startPoint s = None \<and> endPoint s = None
      \<and> hoveredFeatureId s = None \<and> previous_cursor s = [] \<and> onceClick s = []
      \<and> inFlight s = [] \<and> alerts s = []
      \<and> (\<forall>i. \<not> hover (featureState s i)) \<and> (\<forall>i. \<not> selected (featureState s i)))"

text \<open>A fresh page, for concrete runs.\<close>

definition page0 :: app_state where
  "page0 =
     \<lparr>features = [], startPoint = None, endPoint = None,
      groupedPaths = \<lparr>hierarchy = None, paths = None\<rparr>,
      hoveredFeatureId = None, previous_cursor = [], cursor = [],
      featureState = (\<lambda>i. \<lparr>hover = False, selected = False\<rparr>),
      onceClick = [],
      routeData = FeatureCollection [],
      routeDistance = [], routeTime = [], routeInfoHidden = True,
      buttonPulsing = False, buttonDisabled = False, buttonText = ''Generate Route'',
      slider = ''0.5'',
      inFlight = [], alerts = []\<rparr>"

section \<open>Notions used by the properties\<close>

text \<open>The identifiers in the selection array, in array order.\<close>

definition idsOf :: "app_state \<Rightarrow> ident list" where
  "idsOf s = map feature_id (features s)"

text \<open>
  The selection invariant: no identifier occurs twice in the array, and an identifier is
  in the array exactly when its \<open>selected\<close> flag is set on the map.
\<close>

definition sel_inv :: "app_state \<Rightarrow> bool" where
  "sel_inv s =
     (distinct (map feature_id (features s))
      \<and> (\<forall>i. (i \<in> feature_id ` set (features s)) = selected (featureState s i)))"

text \<open>
  Reading a history newest event first: the identifier of the last feature-entered event
  that no pointer-left event follows. A mouse move over no feature enters nothing.
\<close>

fun lastEntered :: "event list \<Rightarrow> ident option" where
  "lastEntered [] = None"
| "lastEntered (MouseMove (f # fs) # older) = Some f"
| "lastEntered (MouseLeave # older) = None"
| "lastEntered (e # older) = lastEntered older"

definition hov_inv :: "app_state \<Rightarrow> bool" where
  "hov_inv s = (\<forall>i. hover (featureState s i) = (hoveredFeatureId s = Some i))"

text \<open>
  Collapsing duplicates to the first occurrence, in first-seen order: \<open>firstSeen seen xs\<close>
  keeps the elements of \<open>xs\<close> that are neither in \<open>seen\<close> nor earlier in \<open>xs\<close>.
\<close>

fun firstSeen :: "'a list \<Rightarrow> 'a list \<Rightarrow> 'a list" where
  "firstSeen seen [] = []"
| "firstSeen seen (x # xs) =
     (if x \<in> set seen then firstSeen seen xs else x # firstSeen (seen @ [x]) xs)"

definition dedupFirst :: "'a list \<Rightarrow> 'a list" where
  "dedupFirst xs = firstSeen [] xs"

text \<open>The identifiers that reach the insertion loop: none when the resolution throws.\<close>

definition handedOn :: "js_error + ident list \<Rightarrow> ident list" where
  "handedOn r = (case r of Inl e \<Rightarrow> [] | Inr ids \<Rightarrow> ids)"

text \<open>A hierarchy name, or a group name, that the loaded dataset has.\<close>

definition knownHierarchy :: "catalog \<Rightarrow> string \<Rightarrow> bool" where
  "knownHierarchy g h = (case hierarchy g of None \<Rightarrow> False | Some hs \<Rightarrow> hs h \<noteq> None)"

definition knownPath :: "catalog \<Rightarrow> string \<Rightarrow> bool" where
  "knownPath g p = (case paths g of None \<Rightarrow> False | Some ps \<Rightarrow> ps p \<noteq> None)"

text \<open>
  A small dataset for concrete runs: one hierarchy over two groups that share segment 3;
  the second group has a nested chain, a member without identifier and a member with
  the falsy identifier 0.
\<close>

definition catalog0 :: catalog where
  "catalog0 =
     \<lparr>hierarchy = Some [''city_centre'' \<mapsto> [''leith_walk'', ''picardy_place'']],
      paths = Some
        [''leith_walk'' \<mapsto>
           [Flat (Member (Some (IdNum 1))), Flat (Member (Some (IdNum 2))),
            Flat (Member (Some (IdNum 3)))],
         ''picardy_place'' \<mapsto>
           [Nested [Member (Some (IdNum 3)), Member (Some (IdNum 4))],
            Flat (Member None), Flat (Member (Some (IdNum 0))),
            Flat (Member (Some (IdNum 5)))]]\<rparr>"

text \<open>
  A history on a fresh page: the dataset arrives, segment 7 is clicked, the group
  \<^verbatim>\<open>leith_walk\<close> is selected, segment 2 is clicked off again, and the hierarchy is
  selected.
\<close>

definition history0 :: "event list" where
  "history0 =
     [GroupedPathsLoaded catalog0,
      MouseMove [IdNum 7], Click (1, 2),
      PathGroupsChange ''path:leith_walk'',
      MouseMove [IdNum 2, IdNum 9], Click (3, 4),
      PathGroupsChange ''hierarchy:city_centre'']"

text \<open>A pointer history: over segment 1, off the layer, over 2, over nothing, over 3.\<close>

definition hovering0 :: "event list" where
  "hovering0 =
     [MouseMove [IdNum 1], MouseLeave, MouseMove [IdNum 2], MouseMove [],
      MouseMove [IdNum 3, IdNum 4]]"

text \<open>The dataset has arrived and segment 2 has been clicked at \<open>(1, 2)\<close>.\<close>

definition picked0 :: app_state where
  "picked0 = run [GroupedPathsLoaded catalog0, MouseMove [IdNum 2], Click (1, 2)] page0"

text \<open>Then the start marker is placed at \<open>(1, 2)\<close> and the end marker at \<open>(3, 4)\<close>.\<close>

definition ready0 :: app_state where
  "ready0 = run [SetStart, Click (1, 2), SetEnd, Click (3, 4)] picked0"

text \<open>A route geometry, for concrete responses.\<close>

definition route0 :: featureCollection where
  "route0 = FeatureCollection [''LineString [[-3.19, 55.95], [-3.17, 55.97]]'']"

section \<open>Supporting lemmas\<close>

lemmas handler_defs =
  run_def mousemove_def mouseleave_def click_def clickToggle_def setHover_def setSelected_def
  pathGroupsOnchange_def selectPathGroup_def addMany_def addOne_def idsToSelect_def
  startsWith_def dropPrefix_def extractIdsFromPath_def deselectAllRoutes_def splice1_def
  setStart_def setEnd_def generateClick_def generateOnclick_def generateRoute_def alert_def
  settle_def routeSettled_def showRouteInfo_def clearRoute_def hideRouteInfo_def
  stateAfter_def afterSelectPathGroup_def getProperty_def objectPrototypeNames_def
  catalog0_def page0_def idsOf_def Let_def

lemma fresh_page0: "fresh page0"
  by (simp add: fresh_def page0_def)

lemma history0_ids:
  "idsOf (run history0 page0) = [IdNum 7, IdNum 1, IdNum 3, IdNum 2, IdNum 4, IdNum 5]"
  by (simp add: history0_def handler_defs)


subsection \<open>List facts\<close>

lemma findIndex_None_iff: "findIndex x fs = None \<longleftrightarrow> x \<notin> feature_id ` set fs"
  by (induction fs) (auto split: option.splits)

lemma findIndex_Some_nth:
  "findIndex x fs = Some i \<Longrightarrow> i < length fs \<and> feature_id (fs ! i) = x"
  by (induction fs arbitrary: i) (auto split: if_splits option.splits)

lemma find_None_iff_ids:
  "List.find (\<lambda>feature. feature_id feature = i) fs = None \<longleftrightarrow> i \<notin> feature_id ` set fs"
  by (auto simp: find_None_iff)

lemma map_splice1: "map f (splice1 i xs) = splice1 i (map f xs)"
  by (simp add: splice1_def take_map drop_map)

lemma distinct_splice1: "distinct xs \<Longrightarrow> distinct (splice1 i xs)"
proof -
  assume d: "distinct xs"
  have "distinct (take i xs @ drop i xs)" using d by simp
  then have "set (take i xs) \<inter> set (drop i xs) = {}" "distinct (take i xs)"
    by (simp_all only: distinct_append) 
  moreover have "set (drop (Suc i) xs) \<subseteq> set (drop i xs)"
    by (metis drop_Suc set_drop_subset tl_drop drop_drop plus_1_eq_Suc)
  moreover have "distinct (drop (Suc i) xs)" using d by simp
  ultimately show ?thesis
    unfolding splice1_def by auto
qed

lemma set_splice1_distinct:
  assumes "distinct xs" "i < length xs"
  shows "set (splice1 i xs) = set xs - {xs ! i}"
proof -
  have xs: "xs = take i xs @ (xs ! i) # drop (Suc i) xs"
    using assms(2) by (simp add: id_take_nth_drop)
  then have "distinct (take i xs @ (xs ! i) # drop (Suc i) xs)"
    using assms(1) by simp
  then have "xs ! i \<notin> set (take i xs)" "xs ! i \<notin> set (drop (Suc i) xs)"
    by auto
  moreover have "set xs = set (take i xs) \<union> {xs ! i} \<union> set (drop (Suc i) xs)"
    by (subst xs) auto
  ultimately show ?thesis
    unfolding splice1_def by auto
qed

subsection \<open>The selection invariant\<close>

lemma sel_inv_fresh: "fresh s \<Longrightarrow> sel_inv s"
  by (simp add: fresh_def sel_inv_def)

lemma sel_inv_clickToggle: "sel_inv s \<Longrightarrow> sel_inv (clickToggle c s)"
proof (cases "hoveredFeatureId s")
  case None
  assume "sel_inv s"
  with None show ?thesis by (simp add: clickToggle_def)
next
  case (Some h)
  note hov = this
  assume inv: "sel_inv s"
  show ?thesis
  proof (cases "findIndex h (features s)")
    case None
    then have "h \<notin> feature_id ` set (features s)"
      by (simp add: findIndex_None_iff)
    with inv hov None show ?thesis
      by (auto simp: clickToggle_def sel_inv_def setSelected_def)
  next
    case (Some i)
    note Some2 = this
    let ?ids = "map feature_id (features s)"
    from Some2 have i: "i < length (features s)" "feature_id (features s ! i) = h"
      using findIndex_Some_nth by blast+
    from inv have d: "distinct ?ids" by (simp add: sel_inv_def)
    have "set (splice1 i ?ids) = set ?ids - {?ids ! i}"
      using d i(1) by (simp add: set_splice1_distinct)
    then have st: "feature_id ` set (splice1 i (features s)) = feature_id ` set (features s) - {h}"
      using i by (simp add: map_splice1 [symmetric])
    have "distinct (map feature_id (splice1 i (features s)))"
      using d by (simp add: map_splice1 distinct_splice1)
    with inv hov Some2 st show ?thesis
      by (auto simp: clickToggle_def sel_inv_def setSelected_def)
  qed
qed

lemma placeMarker_keeps [simp]:
  "features (placeMarker c s r) = features s"
  "featureState (placeMarker c s r) = featureState s"
  "hoveredFeatureId (placeMarker c s r) = hoveredFeatureId s"
  by (cases r; simp)+

lemma placeMarkers_keep [simp]:
  "features (foldl (placeMarker c) s rs) = features s"
  "featureState (foldl (placeMarker c) s rs) = featureState s"
  "hoveredFeatureId (foldl (placeMarker c) s rs) = hoveredFeatureId s"
  by (induction rs arbitrary: s) simp_all

lemma sel_inv_same:
  "sel_inv s \<Longrightarrow> features t = features s \<Longrightarrow>
   (\<And>i. selected (featureState t i) = selected (featureState s i)) \<Longrightarrow>
   sel_inv t"
  by (simp add: sel_inv_def)

lemma sel_inv_click: "sel_inv s \<Longrightarrow> sel_inv (click c s)"
  by (rule sel_inv_same [of "clickToggle c s"])
     (simp_all add: click_def Let_def sel_inv_clickToggle)

lemma deselect_loop_state:
  "featureState (foldl (\<lambda>st f. setSelected (feature_id f) False st) s fs) i =
     (if i \<in> feature_id ` set fs then (featureState s i)\<lparr>selected := False\<rparr> else featureState s i)"
  by (induction fs arbitrary: s) (auto simp: setSelected_def)

lemma sel_inv_deselectAllRoutes: "sel_inv s \<Longrightarrow> sel_inv (deselectAllRoutes s)"
  by (auto simp: sel_inv_def deselectAllRoutes_def deselect_loop_state)

lemma sel_inv_addOne: "sel_inv s \<Longrightarrow> sel_inv (addOne s i)"
  by (auto simp: sel_inv_def addOne_def find_None_iff_ids setSelected_def)

lemma sel_inv_addMany: "sel_inv s \<Longrightarrow> sel_inv (addMany ids s)"
  unfolding addMany_def
  by (induction ids arbitrary: s) (simp_all add: sel_inv_addOne)

lemma addMany_Nil: "addMany [] s = s"
  by (simp add: addMany_def)

lemma idsToSelect_Nil: "idsToSelect g [] = Inr []"
  by (simp add: idsToSelect_def startsWith_def)

lemma afterSelectPathGroup_addMany:
  "afterSelectPathGroup k s = addMany (handedOn (idsToSelect (groupedPaths s) k)) s"
proof (cases "k = []")
  case True
  then show ?thesis
    by (simp add: afterSelectPathGroup_def stateAfter_def selectPathGroup_def handedOn_def
        idsToSelect_Nil addMany_Nil)
next
  case False
  then show ?thesis
    by (cases "idsToSelect (groupedPaths s) k")
       (simp_all add: afterSelectPathGroup_def stateAfter_def selectPathGroup_def handedOn_def
          addMany_Nil)
qed

lemma step_PathGroupsChange: "step s (PathGroupsChange v) = afterSelectPathGroup v s"
  by (cases "v = []")
     (simp_all add: pathGroupsOnchange_def afterSelectPathGroup_def selectPathGroup_def
        stateAfter_def)

lemma sel_inv_selectPathGroup: "sel_inv s \<Longrightarrow> sel_inv (afterSelectPathGroup k s)"
  by (simp add: afterSelectPathGroup_addMany sel_inv_addMany)

lemma mousemove_selection [simp]:
  "features (mousemove fs s) = features s"
  "selected (featureState (mousemove fs s) i) = selected (featureState s i)"
  by (cases fs; cases "hoveredFeatureId s"; simp add: mousemove_def setHover_def Let_def)+

lemma mouseleave_selection [simp]:
  "features (mouseleave s) = features s"
  "selected (featureState (mouseleave s) i) = selected (featureState s i)"
  by (cases "hoveredFeatureId s"; simp add: mouseleave_def setHover_def Let_def)+

lemma settle_selection [simp]:
  "features (settle n out s) = features s"
  "featureState (settle n out s) = featureState s"
  by (simp_all add: settle_def routeSettled_def alert_def showRouteInfo_def
      split: outcome.splits body.splits)

lemma generateClick_selection [simp]:
  "features (generateClick s) = features s"
  "featureState (generateClick s) = featureState s"
  by (simp_all add: generateClick_def generateOnclick_def generateRoute_def alert_def
      Let_def split: option.splits)

lemma sel_inv_step: "sel_inv s \<Longrightarrow> sel_inv (step s e)"
proof (cases e)
  case (MouseMove fs)
  assume "sel_inv s"
  then show ?thesis
    unfolding MouseMove by (rule sel_inv_same) simp_all
next
  case MouseLeave
  assume "sel_inv s"
  then show ?thesis
    unfolding MouseLeave by (rule sel_inv_same) simp_all
next
  case (Click c)
  assume "sel_inv s"
  then show ?thesis
    unfolding Click by (simp add: sel_inv_click)
next
  case SetStart
  assume "sel_inv s"
  then show ?thesis
    unfolding SetStart by (rule sel_inv_same) (simp_all add: setStart_def)
next
  case SetEnd
  assume "sel_inv s"
  then show ?thesis
    unfolding SetEnd by (rule sel_inv_same) (simp_all add: setEnd_def)
next
  case DeselectAll
  assume "sel_inv s"
  then show ?thesis
    unfolding DeselectAll by (simp add: sel_inv_deselectAllRoutes)
next
  case ClearRoute
  assume "sel_inv s"
  then show ?thesis
    unfolding ClearRoute
    by (rule sel_inv_same) (simp_all add: clearRoute_def hideRouteInfo_def)
next
  case (PathGroupsChange v)
  assume "sel_inv s"
  then show ?thesis
    unfolding PathGroupsChange step_PathGroupsChange by (rule sel_inv_selectPathGroup)
next
  case GenerateClick
  assume "sel_inv s"
  then show ?thesis
    unfolding GenerateClick by (rule sel_inv_same) simp_all
next
  case (Settle n out)
  assume "sel_inv s"
  then show ?thesis
    unfolding Settle by (rule sel_inv_same) simp_all
next
  case (GroupedPathsLoaded g)
  assume "sel_inv s"
  then show ?thesis
    unfolding GroupedPathsLoaded by (rule sel_inv_same) simp_all
qed

lemma sel_inv_run: "sel_inv s \<Longrightarrow> sel_inv (run evs s)"
  unfolding run_def
  by (induction evs arbitrary: s) (simp_all add: sel_inv_step)

subsection \<open>The hover invariant\<close>

lemma hov_inv_same:
  "hov_inv s \<Longrightarrow> hoveredFeatureId t = hoveredFeatureId s \<Longrightarrow>
   (\<And>i. hover (featureState t i) = hover (featureState s i)) \<Longrightarrow>
   hov_inv t"
  by (simp add: hov_inv_def)

lemma clickToggle_hover [simp]:
  "hoveredFeatureId (clickToggle c s) = hoveredFeatureId s"
  "hover (featureState (clickToggle c s) i) = hover (featureState s i)"
  by (simp_all add: clickToggle_def setSelected_def split: option.splits)

lemma click_hover [simp]:
  "hoveredFeatureId (click c s) = hoveredFeatureId s"
  "hover (featureState (click c s) i) = hover (featureState s i)"
  by (simp_all add: click_def Let_def)

lemma deselectAllRoutes_hover [simp]:
  "hoveredFeatureId (deselectAllRoutes s) = hoveredFeatureId s"
  "hover (featureState (deselectAllRoutes s) i) = hover (featureState s i)"
proof -
  have "hoveredFeatureId (foldl (\<lambda>st f. setSelected (feature_id f) False st) s fs)
        = hoveredFeatureId s" for fs
    by (induction fs arbitrary: s) (simp_all add: setSelected_def)
  then show "hoveredFeatureId (deselectAllRoutes s) = hoveredFeatureId s"
    by (simp add: deselectAllRoutes_def)
  show "hover (featureState (deselectAllRoutes s) i) = hover (featureState s i)"
    by (simp add: deselectAllRoutes_def deselect_loop_state)
qed

lemma addOne_hover [simp]:
  "hoveredFeatureId (addOne s i) = hoveredFeatureId s"
  "hover (featureState (addOne s i) j) = hover (featureState s j)"
  by (simp_all add: addOne_def setSelected_def)

lemma addMany_hover [simp]:
  "hoveredFeatureId (addMany ids s) = hoveredFeatureId s"
  "hover (featureState (addMany ids s) j) = hover (featureState s j)"
  unfolding addMany_def by (induction ids arbitrary: s) simp_all

lemma selectPathGroup_hover [simp]:
  "hoveredFeatureId (afterSelectPathGroup k s) = hoveredFeatureId s"
  "hover (featureState (afterSelectPathGroup k s) j) = hover (featureState s j)"
  by (simp_all add: afterSelectPathGroup_addMany)

lemma settle_hover [simp]: "hoveredFeatureId (settle n out s) = hoveredFeatureId s"
  by (simp add: settle_def routeSettled_def alert_def showRouteInfo_def
      split: outcome.splits body.splits)

lemma generateClick_hover [simp]: "hoveredFeatureId (generateClick s) = hoveredFeatureId s"
  by (simp add: generateClick_def generateOnclick_def generateRoute_def alert_def
      Let_def split: option.splits)

lemma mousemove_Nil: "mousemove [] s = s"
  by (simp add: mousemove_def)

lemma mousemove_hovered:
  "hoveredFeatureId (mousemove fs s) = (case fs of [] \<Rightarrow> hoveredFeatureId s | f # _ \<Rightarrow> Some f)"
  by (cases fs; cases "hoveredFeatureId s"; simp add: mousemove_def setHover_def Let_def)

lemma mousemove_flags:
  "hover (featureState (mousemove (f # fs) s) i) =
     (if i = f then True
      else if hoveredFeatureId s = Some i then False
      else hover (featureState s i))"
  by (cases "hoveredFeatureId s"; simp add: mousemove_def setHover_def Let_def)

lemma mouseleave_hovered: "hoveredFeatureId (mouseleave s) = None"
  by (cases "hoveredFeatureId s"; simp add: mouseleave_def setHover_def Let_def)

lemma mouseleave_flags:
  "hover (featureState (mouseleave s) i) =
     (if hoveredFeatureId s = Some i then False else hover (featureState s i))"
  by (cases "hoveredFeatureId s"; simp add: mouseleave_def setHover_def Let_def)

lemma hov_inv_step: "hov_inv s \<Longrightarrow> hov_inv (step s e)"
proof (cases e)
  case (MouseMove fs)
  assume "hov_inv s"
  then show ?thesis
    unfolding MouseMove
    by (cases fs) (auto simp: hov_inv_def mousemove_hovered mousemove_flags mousemove_Nil)
next
  case MouseLeave
  assume "hov_inv s"
  then show ?thesis
    unfolding MouseLeave by (auto simp: hov_inv_def mouseleave_hovered mouseleave_flags)
next
  case (Click c)
  assume "hov_inv s"
  then show ?thesis
    unfolding Click by (rule hov_inv_same) simp_all
next
  case SetStart
  assume "hov_inv s"
  then show ?thesis
    unfolding SetStart by (rule hov_inv_same) (simp_all add: setStart_def)
next
  case SetEnd
  assume "hov_inv s"
  then show ?thesis
    unfolding SetEnd by (rule hov_inv_same) (simp_all add: setEnd_def)
next
  case DeselectAll
  assume "hov_inv s"
  then show ?thesis
    unfolding DeselectAll by (rule hov_inv_same) simp_all
next
  case ClearRoute
  assume "hov_inv s"
  then show ?thesis
    unfolding ClearRoute by (rule hov_inv_same) (simp_all add: clearRoute_def hideRouteInfo_def)
next
  case (PathGroupsChange v)
  assume "hov_inv s"
  then show ?thesis
    unfolding PathGroupsChange step_PathGroupsChange by (rule hov_inv_same) simp_all
next
  case GenerateClick
  assume "hov_inv s"
  then show ?thesis
    unfolding GenerateClick by (rule hov_inv_same) simp_all
next
  case (Settle n out)
  assume "hov_inv s"
  then show ?thesis
    unfolding Settle by (rule hov_inv_same) simp_all
next
  case (GroupedPathsLoaded g)
  assume "hov_inv s"
  then show ?thesis
    unfolding GroupedPathsLoaded by (rule hov_inv_same) simp_all
qed

lemma run_snoc: "run (evs @ [e]) s = step (run evs s) e"
  by (simp add: run_def)

lemma hov_inv_run: "hov_inv s \<Longrightarrow> hov_inv (run evs s)"
  by (induction evs rule: rev_induct) (simp_all add: run_snoc hov_inv_step, simp add: run_def)

lemma hovered_step:
  "hoveredFeatureId (step s e) =
     (case lastEntered [e] of Some f \<Rightarrow> Some f
      | None \<Rightarrow> (if e = MouseLeave then None else hoveredFeatureId s))"
proof (cases e)
  case (MouseMove fs)
  then show ?thesis by (cases fs) (simp_all add: mousemove_hovered)
next
  case MouseLeave
  then show ?thesis by (simp add: mouseleave_hovered)
qed (simp_all add: setStart_def setEnd_def clearRoute_def hideRouteInfo_def
      step_PathGroupsChange del: step.simps(8))

lemma lastEntered_Cons:
  "lastEntered (e # older) =
     (case lastEntered [e] of Some f \<Rightarrow> Some f
      | None \<Rightarrow> (if e = MouseLeave then None else lastEntered older))"
proof (cases e)
  case (MouseMove fs)
  then show ?thesis by (cases fs) simp_all
qed simp_all

lemma hovered_run:
  "hoveredFeatureId s = None \<Longrightarrow> hoveredFeatureId (run evs s) = lastEntered (rev evs)"
proof (induction evs rule: rev_induct)
  case Nil
  then show ?case by (simp add: run_def)
next
  case (snoc e evs)
  then show ?case
    by (simp add: run_snoc hovered_step lastEntered_Cons [of e "rev evs"] split: option.splits)
qed

subsection \<open>Bulk add\<close>

lemma set_firstSeen: "set (firstSeen seen xs) = set xs - set seen"
  by (induction xs arbitrary: seen) auto

lemma distinct_firstSeen: "distinct (firstSeen seen xs)"
  by (induction xs arbitrary: seen) (auto simp: set_firstSeen)

lemma subseq_firstSeen: "subseq (firstSeen seen xs) xs"
  by (induction xs arbitrary: seen) auto

lemma firstSeen_set_cong: "set seen = set seen' \<Longrightarrow> firstSeen seen xs = firstSeen seen' xs"
proof (induction xs arbitrary: seen seen')
  case Nil
  then show ?case by simp
next
  case (Cons x xs)
  have 1: "firstSeen seen xs = firstSeen seen' xs"
    using Cons.prems by (rule Cons.IH)
  have "set (seen @ [x]) = set (seen' @ [x])"
    using Cons.prems by simp
  then have 2: "firstSeen (seen @ [x]) xs = firstSeen (seen' @ [x]) xs"
    by (rule Cons.IH)
  show ?case
    using Cons.prems by (simp add: 1 2)
qed

lemma firstSeen_filter:
  "firstSeen seen xs = filter (\<lambda>x. x \<notin> set seen) (firstSeen [] xs)"
proof (induction xs arbitrary: seen)
  case Nil
  then show ?case by simp
next
  case (Cons x xs)
  have a: "firstSeen (seen @ [x]) xs = filter (\<lambda>y. y \<notin> set (seen @ [x])) (firstSeen [] xs)"
    by (rule Cons.IH)
  have b: "firstSeen [x] xs = filter (\<lambda>y. y \<notin> set [x]) (firstSeen [] xs)"
    by (rule Cons.IH)
  have c: "firstSeen seen xs = filter (\<lambda>y. y \<notin> set seen) (firstSeen [] xs)"
    by (rule Cons.IH)
  show ?case
  proof (cases "x \<in> set seen")
    case True
    have "filter (\<lambda>y. y \<notin> set seen) (filter (\<lambda>y. y \<notin> set [x]) (firstSeen [] xs))
        = filter (\<lambda>y. y \<notin> set seen) (firstSeen [] xs)"
      unfolding filter_filter using True by (intro filter_cong) auto
    with True b c show ?thesis by simp
  next
    case False
    have "filter (\<lambda>y. y \<notin> set seen) (filter (\<lambda>y. y \<notin> set [x]) (firstSeen [] xs))
        = filter (\<lambda>y. y \<notin> set (seen @ [x])) (firstSeen [] xs)"
      unfolding filter_filter by (intro filter_cong) auto
    with False a b show ?thesis by simp
  qed
qed

lemma dedupFirst_remdups: "dedupFirst xs = rev (remdups (rev xs))"
proof -
  have "rev (remdups (rev xs @ rev seen)) = rev (remdups (rev seen)) @ firstSeen seen xs"
    for seen :: "'a list"
  proof (induction xs arbitrary: seen)
    case Nil
    then show ?case by simp
  next
    case (Cons x xs)
    have "rev (remdups (rev (x # xs) @ rev seen)) = rev (remdups (rev xs @ rev (seen @ [x])))"
      by simp
    also have "\<dots> = rev (remdups (rev (seen @ [x]))) @ firstSeen (seen @ [x]) xs"
      by (rule Cons.IH)
    finally have step: "rev (remdups (rev (x # xs) @ rev seen))
        = rev (remdups (x # rev seen)) @ firstSeen (seen @ [x]) xs"
      by simp
    show ?case
    proof (cases "x \<in> set seen")
      case True
      then have "firstSeen (seen @ [x]) xs = firstSeen seen xs"
        by (intro firstSeen_set_cong) auto
      with True step show ?thesis by simp
    next
      case False
      with step show ?thesis by simp
    qed
  qed
  from this [of "[]"] show ?thesis by (simp add: dedupFirst_def)
qed

lemma addOne_features:
  "features (addOne s i) =
     features s @ map (\<lambda>j. \<lparr>feature_id = j, coordinates = None\<rparr>) (firstSeen (idsOf s) [i])"
  by (auto simp: addOne_def idsOf_def find_None_iff_ids setSelected_def)

lemma addMany_features:
  "features (addMany ids s) =
     features s @ map (\<lambda>j. \<lparr>feature_id = j, coordinates = None\<rparr>) (firstSeen (idsOf s) ids)"
proof (induction ids arbitrary: s)
  case Nil
  then show ?case by (simp add: addMany_def)
next
  case (Cons i ids)
  have unfold: "addMany (i # ids) s = addMany ids (addOne s i)"
    by (simp add: addMany_def)
  show ?case
  proof (cases "i \<in> set (idsOf s)")
    case True
    then have "addOne s i = s"
      by (simp add: addOne_def idsOf_def find_None_iff_ids)
    with True Cons.IH [of s] unfold show ?thesis by simp
  next
    case False
    then have "idsOf (addOne s i) = idsOf s @ [i]"
      by (simp add: addOne_features idsOf_def)
    with False Cons.IH [of "addOne s i"] unfold show ?thesis
      by (simp add: addOne_features)
  qed
qed

lemma addMany_flags:
  "featureState (addMany ids s) j =
     (if j \<in> set ids - set (idsOf s) then (featureState s j)\<lparr>selected := True\<rparr>
      else featureState s j)"
proof (induction ids arbitrary: s)
  case Nil
  then show ?case by (simp add: addMany_def)
next
  case (Cons i ids)
  have unfold: "addMany (i # ids) s = addMany ids (addOne s i)"
    by (simp add: addMany_def)
  show ?case
  proof (cases "i \<in> set (idsOf s)")
    case True
    then have "addOne s i = s"
      by (simp add: addOne_def idsOf_def find_None_iff_ids)
    with True Cons.IH [of s] unfold show ?thesis by auto
  next
    case False
    then have ids: "idsOf (addOne s i) = idsOf s @ [i]"
      by (simp add: addOne_features idsOf_def)
    have fs: "featureState (addOne s i) = (featureState s)(i := (featureState s i)\<lparr>selected := True\<rparr>)"
      using False by (simp add: addOne_def idsOf_def find_None_iff_ids setSelected_def)
    show ?thesis
      unfolding unfold Cons.IH [of "addOne s i"] ids fs using False by auto
  qed
qed

lemma addMany_noop: "set ids \<subseteq> set (idsOf s) \<Longrightarrow> addMany ids s = s"
  unfolding addMany_def
  by (induction ids) (simp_all add: addOne_def idsOf_def find_None_iff_ids)

lemma addMany_groupedPaths [simp]: "groupedPaths (addMany ids s) = groupedPaths s"
  unfolding addMany_def
  by (induction ids arbitrary: s) (simp_all add: addOne_def setSelected_def)

lemma addMany_covers: "set ids \<subseteq> set (idsOf (addMany ids s))"
  by (auto simp: idsOf_def addMany_features set_firstSeen)

lemma addMany_idem: "addMany ids (addMany ids s) = addMany ids s"
  by (rule addMany_noop) (rule addMany_covers)

lemma idsToSelect_hierarchy:
  "idsToSelect g (''hierarchy:'' @ h) =
     (case hierarchy g of
        None \<Rightarrow> Inr []
      | Some hs \<Rightarrow>
          (case getProperty hs h of
             Missing \<Rightarrow> Inr []
           | Inherited \<Rightarrow> Inl TypeError
           | Own cs \<Rightarrow> Inr (concat (map (extractIdsFromPath g) cs))))"
  by (simp add: idsToSelect_def startsWith_def dropPrefix_def split: option.splits)

lemma idsToSelect_path:
  "idsToSelect g (''path:'' @ p) = Inr (extractIdsFromPath g p)"
  by (simp add: idsToSelect_def startsWith_def dropPrefix_def)

subsection \<open>Clicking a selected segment\<close>

lemma click_removes:
  assumes "sel_inv s" "hoveredFeatureId s = Some h" "h \<in> set (idsOf s)"
  shows "h \<notin> set (idsOf (click c s))"
proof -
  from assms(3) obtain i where fi: "findIndex h (features s) = Some i"
    by (cases "findIndex h (features s)") (auto simp: findIndex_None_iff idsOf_def)
  then have i: "i < length (idsOf s)" "idsOf s ! i = h"
    using findIndex_Some_nth [OF fi] by (simp_all add: idsOf_def)
  from assms(1) have d: "distinct (idsOf s)"
    by (simp add: sel_inv_def idsOf_def)
  have "idsOf (click c s) = splice1 i (idsOf s)"
    using assms(2) fi
    by (simp add: click_def clickToggle_def Let_def idsOf_def map_splice1 setSelected_def)
  then show ?thesis
    using set_splice1_distinct [OF d i(1)] i(2) by simp
qed

lemma history0_hovered: "hoveredFeatureId (run history0 page0) = Some (IdNum 2)"
  by (simp add: history0_def handler_defs)

lemma picked0_features:
  "features picked0 = [\<lparr>feature_id = IdNum 2, coordinates = Some (1, 2)\<rparr>]"
  by (simp add: picked0_def handler_defs)

lemma picked0_group:
  "features (afterSelectPathGroup ''path:leith_walk'' picked0) =
     [\<lparr>feature_id = IdNum 2, coordinates = Some (1, 2)\<rparr>,
      \<lparr>feature_id = IdNum 1, coordinates = None\<rparr>,
      \<lparr>feature_id = IdNum 3, coordinates = None\<rparr>]"
  by (simp add: picked0_def handler_defs)

subsection \<open>Formatting\<close>


lemma distanceText_examples:
  "distanceText 500 = ''500 m''" "distanceText 1500 = ''1.5 km''" "distanceText 2500 = ''2.5 km''"
  by code_simp+

lemma timeText_examples:
  "timeText 45 = ''45 sec''" "timeText 125 = ''2 min''" "timeText 5400 = ''1h 30m''"
  "timeText 400 = ''7 min''"
  by code_simp+









section \<open>The properties\<close>

subsection \<open>Selection array and \<open>selected\<close> flags\<close>

text \<open>
  C1. On a freshly loaded page, after every sequence of events (clicks that toggle the
  hovered segment, group selections through \<^verbatim>\<open>selectPathGroup\<close>,
  \<^verbatim>\<open>deselectAllRoutes\<close>, and every other handler interleaved), an identifier is in
  the \<^verbatim>\<open>features\<close> array if and only if its \<open>selected\<close> flag on the map is true.
  The sequence is arbitrary, so the equivalence holds after each of its operations.
  Identifiers are numbers, in the group dataset as on the map, so that the array and the
  map's flag store tell the same identifiers apart.
\<close>

theorem selection_matches_selected_flag:
  assumes "fresh s"
  shows "(i \<in> set (idsOf (run evs s))) = selected (featureState (run evs s) i)"
proof -
  have "sel_inv (run evs s)"
    using assms by (intro sel_inv_run sel_inv_fresh)
  then show ?thesis
    by (simp add: sel_inv_def idsOf_def)
qed

theorem selection_matches_selected_flag_witness:
  "fresh page0
   \<and> IdNum 3 \<in> set (idsOf (run history0 page0))
   \<and> selected (featureState (run history0 page0) (IdNum 3))
   \<and> IdNum 9 \<notin> set (idsOf (run history0 page0))
   \<and> \<not> selected (featureState (run history0 page0) (IdNum 9))"
  using selection_matches_selected_flag [OF fresh_page0, of "IdNum 3" history0]
    selection_matches_selected_flag [OF fresh_page0, of "IdNum 9" history0]
  by (simp add: history0_ids fresh_page0)

text \<open>
  C10. On a freshly loaded page, after every sequence of events no identifier occurs
  twice in the \<^verbatim>\<open>features\<close> array; hence the click handler's single
  \<^verbatim>\<open>splice\<close> at the found index leaves no occurrence of the clicked identifier.
\<close>

theorem selection_ids_distinct:
  assumes "fresh s"
  shows "distinct (idsOf (run evs s))
     \<and> (hoveredFeatureId (run evs s) = Some h \<longrightarrow> h \<in> set (idsOf (run evs s)) \<longrightarrow>
          h \<notin> set (idsOf (click c (run evs s))))"
proof -
  have inv: "sel_inv (run evs s)"
    using assms by (intro sel_inv_run sel_inv_fresh)
  then have "distinct (idsOf (run evs s))"
    by (simp add: sel_inv_def idsOf_def)
  with inv show ?thesis
    by (auto dest: click_removes)
qed

theorem selection_ids_distinct_witness:
  "fresh page0
   \<and> distinct (idsOf (run history0 page0))
   \<and> hoveredFeatureId (run history0 page0) = Some (IdNum 2)
   \<and> IdNum 2 \<in> set (idsOf (run history0 page0))
   \<and> IdNum 2 \<notin> set (idsOf (click (5, 6) (run history0 page0)))"
  using selection_ids_distinct [OF fresh_page0, of history0 "IdNum 2" "(5, 6)"]
  by (simp add: history0_ids history0_hovered fresh_page0)

subsection \<open>Hover\<close>

text \<open>
  C5. On a freshly loaded page, after every sequence of events the \<open>hover\<close> flag is set
  on exactly the segment of the last feature-entered event that no pointer-left event
  follows (on none if there is no such event); so at most one segment carries the flag.
  A mouse move onto segment \<open>b\<close> while another segment \<open>a\<close> is hovered leaves \<open>a\<close>'s flag
  cleared and \<open>b\<close>'s set.
\<close>

theorem hover_flag_is_last_entered:
  assumes "fresh s"
  shows "hover (featureState (run evs s) i) = (lastEntered (rev evs) = Some i)
     \<and> (hover (featureState (run evs s) i) \<longrightarrow> hover (featureState (run evs s) j) \<longrightarrow> i = j)
     \<and> (hoveredFeatureId (run evs s) = Some a \<longrightarrow> a \<noteq> b \<longrightarrow>
          \<not> hover (featureState (mousemove (b # bs) (run evs s)) a)
          \<and> hover (featureState (mousemove (b # bs) (run evs s)) b))"
proof -
  from assms have "hov_inv s" "hoveredFeatureId s = None"
    by (simp_all add: fresh_def hov_inv_def)
  then have "hov_inv (run evs s)" "hoveredFeatureId (run evs s) = lastEntered (rev evs)"
    by (simp_all add: hov_inv_run hovered_run)
  then show ?thesis
    by (auto simp: hov_inv_def mousemove_flags)
qed

theorem hover_flag_is_last_entered_witness:
  "fresh page0
   \<and> lastEntered (rev hovering0) = Some (IdNum 3)
   \<and> hover (featureState (run hovering0 page0) (IdNum 3))
   \<and> \<not> hover (featureState (run hovering0 page0) (IdNum 2))
   \<and> hoveredFeatureId (run hovering0 page0) = Some (IdNum 3)
   \<and> \<not> hover (featureState (mousemove [IdNum 5] (run hovering0 page0)) (IdNum 3))
   \<and> hover (featureState (mousemove [IdNum 5] (run hovering0 page0)) (IdNum 5))"
proof -
  have a: "lastEntered (rev hovering0) = Some (IdNum 3)"
    by (simp add: hovering0_def)
  have b: "hoveredFeatureId (run hovering0 page0) = Some (IdNum 3)"
    by (simp add: hovering0_def handler_defs)
  show ?thesis
    using hover_flag_is_last_entered
        [OF fresh_page0, of hovering0 "IdNum 3" "IdNum 2" "IdNum 3" "IdNum 5" "[]"]
      hover_flag_is_last_entered
        [OF fresh_page0, of hovering0 "IdNum 2" "IdNum 2" "IdNum 3" "IdNum 5" "[]"]
    by (simp add: a b fresh_page0)
qed

subsection \<open>Group selection\<close>

text \<open>
  C4. \<^verbatim>\<open>selectPathGroup\<close> is idempotent: the page after two calls with the same
  reference is in the same state (selection array and flags included) as after one, and
  the second call ends as the first did. Entries already in the array stay where they
  are, with their coordinates; an identifier already present keeps its feature state and
  is not added a second time.
\<close>

theorem selectPathGroup_idempotent:
  "afterSelectPathGroup k (afterSelectPathGroup k s) = afterSelectPathGroup k s
   \<and> selectPathGroup k (afterSelectPathGroup k s) = selectPathGroup k s
   \<and> take (length (features s)) (features (afterSelectPathGroup k s)) = features s
   \<and> (i \<in> set (idsOf s) \<longrightarrow>
        featureState (afterSelectPathGroup k s) i = featureState s i
        \<and> count_list (idsOf (afterSelectPathGroup k s)) i = count_list (idsOf s) i)"
proof -
  let ?ids = "handedOn (idsToSelect (groupedPaths s) k)"
  have a: "afterSelectPathGroup k s = addMany ?ids s"
    by (rule afterSelectPathGroup_addMany)
  have 1: "afterSelectPathGroup k (afterSelectPathGroup k s) = afterSelectPathGroup k s"
    by (simp add: afterSelectPathGroup_addMany addMany_idem)
  have 2: "selectPathGroup k (afterSelectPathGroup k s) = selectPathGroup k s"
  proof (cases "idsToSelect (groupedPaths s) k")
    case (Inl e)
    then show ?thesis
      by (simp add: afterSelectPathGroup_def stateAfter_def selectPathGroup_def)
  next
    case (Inr ids)
    then have "addMany ids (addMany ids s) = addMany ids s"
      by (simp add: addMany_idem)
    with Inr show ?thesis
      by (simp add: afterSelectPathGroup_def stateAfter_def selectPathGroup_def)
  qed
  have 3: "take (length (features s)) (features (afterSelectPathGroup k s)) = features s"
    by (simp add: a addMany_features)
  have 4: "featureState (afterSelectPathGroup k s) i = featureState s i" if "i \<in> set (idsOf s)"
    using that by (simp add: a addMany_flags)
  have "i \<notin> set (firstSeen (idsOf s) ?ids)" if "i \<in> set (idsOf s)"
    using that by (simp add: set_firstSeen)
  then have 5: "count_list (idsOf (afterSelectPathGroup k s)) i = count_list (idsOf s) i"
    if "i \<in> set (idsOf s)"
    using that
    by (simp add: a idsOf_def addMany_features comp_def count_list_0_iff)
  from 1 2 3 4 5 show ?thesis by blast
qed

theorem selectPathGroup_idempotent_witness:
  "IdNum 2 \<in> set (idsOf picked0)
   \<and> features (afterSelectPathGroup ''path:leith_walk''
        (afterSelectPathGroup ''path:leith_walk'' picked0)) =
     [\<lparr>feature_id = IdNum 2, coordinates = Some (1, 2)\<rparr>,
      \<lparr>feature_id = IdNum 1, coordinates = None\<rparr>,
      \<lparr>feature_id = IdNum 3, coordinates = None\<rparr>]
   \<and> count_list (idsOf (afterSelectPathGroup ''path:leith_walk'' picked0)) (IdNum 2) = 1
   \<and> selected (featureState (afterSelectPathGroup ''path:leith_walk'' picked0) (IdNum 2))"
proof -
  have sel: "selected (featureState picked0 (IdNum 2))"
    by (simp add: picked0_def handler_defs)
  show ?thesis
    using selectPathGroup_idempotent [of "''path:leith_walk''" picked0 "IdNum 2"] sel
    by (simp add: picked0_group idsOf_def picked0_features)
qed

text \<open>
  C3, as stated, fails: the list that the resolver hands on (\<^verbatim>\<open>idsToSelect\<close>) is not
  free of duplicates. For the hierarchy of \<open>catalog0\<close>, whose two groups share segment
  3, it is \<open>[1, 2, 3, 3, 4, 5]\<close>.
\<close>

theorem resolved_list_has_duplicates:
  "idsToSelect catalog0 ''hierarchy:city_centre'' =
     Inr [IdNum 1, IdNum 2, IdNum 3, IdNum 3, IdNum 4, IdNum 5]
   \<and> \<not> distinct (handedOn (idsToSelect catalog0 ''hierarchy:city_centre''))"
  by (simp add: idsToSelect_def startsWith_def dropPrefix_def catalog0_def extractIdsFromPath_def
      getProperty_def handedOn_def)

text \<open>
  C3, amended. The resolved list is a function of the loaded dataset and the reference
  alone (and selecting does not change the dataset, so resolving again gives the same
  list); it may contain duplicates. They are collapsed when the list is added to the
  selection: the identifiers that \<^verbatim>\<open>selectPathGroup\<close> appends to the array are the
  resolved list with repeated occurrences and already selected identifiers dropped, in
  first-seen order. On an empty selection the array's identifiers are the resolved list
  with duplicates collapsed to the first occurrence. (When the resolution throws, nothing
  is appended.)
\<close>

theorem resolved_ids_deduplicated_on_insertion:
  "idsOf (afterSelectPathGroup k s) =
     idsOf s @ firstSeen (idsOf s) (handedOn (idsToSelect (groupedPaths s) k))
   \<and> idsToSelect (groupedPaths (afterSelectPathGroup k s)) k = idsToSelect (groupedPaths s) k
   \<and> (idsToSelect (groupedPaths s) k = Inr ids \<longrightarrow>
        selectPathGroup k s = Inr (afterSelectPathGroup k s)
        \<and> idsOf (afterSelectPathGroup k s) = idsOf s @ firstSeen (idsOf s) ids)
   \<and> firstSeen (idsOf s) ids = filter (\<lambda>i. i \<notin> set (idsOf s)) (dedupFirst ids)
   \<and> distinct (dedupFirst ids) \<and> set (dedupFirst ids) = set ids \<and> subseq (dedupFirst ids) ids
   \<and> dedupFirst ids = rev (remdups (rev ids))
   \<and> (features s = [] \<longrightarrow>
        idsOf (afterSelectPathGroup k s) = dedupFirst (handedOn (idsToSelect (groupedPaths s) k)))"
proof -
  let ?r = "idsToSelect (groupedPaths s) k"
  have 1: "idsOf (afterSelectPathGroup k s) = idsOf s @ firstSeen (idsOf s) (handedOn ?r)"
    by (simp add: afterSelectPathGroup_addMany idsOf_def addMany_features comp_def)
  have 2: "idsToSelect (groupedPaths (afterSelectPathGroup k s)) k = ?r"
    by (simp add: afterSelectPathGroup_addMany)
  have 3: "selectPathGroup k s = Inr (afterSelectPathGroup k s)
      \<and> idsOf (afterSelectPathGroup k s) = idsOf s @ firstSeen (idsOf s) ids"
    if "?r = Inr ids"
    using that 1
    by (simp add: afterSelectPathGroup_def stateAfter_def selectPathGroup_def handedOn_def
        idsToSelect_Nil addMany_Nil)
  have 4: "firstSeen (idsOf s) ids = filter (\<lambda>i. i \<notin> set (idsOf s)) (dedupFirst ids)"
    unfolding dedupFirst_def by (rule firstSeen_filter)
  have 5: "distinct (dedupFirst ids)" "set (dedupFirst ids) = set ids" "subseq (dedupFirst ids) ids"
    by (simp_all add: dedupFirst_def distinct_firstSeen set_firstSeen subseq_firstSeen)
  have 6: "idsOf (afterSelectPathGroup k s) = dedupFirst (handedOn ?r)" if "features s = []"
    using that 1 by (simp add: idsOf_def dedupFirst_def)
  from 1 2 3 4 5 6 dedupFirst_remdups [of ids] show ?thesis by blast
qed

theorem resolved_ids_deduplicated_on_insertion_witness:
  "features (page0\<lparr>groupedPaths := catalog0\<rparr>) = []
   \<and> idsToSelect catalog0 ''hierarchy:city_centre'' =
        Inr [IdNum 1, IdNum 2, IdNum 3, IdNum 3, IdNum 4, IdNum 5]
   \<and> dedupFirst [IdNum 1, IdNum 2, IdNum 3, IdNum 3, IdNum 4, IdNum 5] =
        [IdNum 1, IdNum 2, IdNum 3, IdNum 4, IdNum 5]
   \<and> idsOf (afterSelectPathGroup ''hierarchy:city_centre'' (page0\<lparr>groupedPaths := catalog0\<rparr>)) =
        [IdNum 1, IdNum 2, IdNum 3, IdNum 4, IdNum 5]"
proof -
  let ?s = "page0\<lparr>groupedPaths := catalog0\<rparr>"
  have a: "idsToSelect catalog0 ''hierarchy:city_centre'' =
        Inr [IdNum 1, IdNum 2, IdNum 3, IdNum 3, IdNum 4, IdNum 5]"
    by (simp add: idsToSelect_def startsWith_def dropPrefix_def catalog0_def
        extractIdsFromPath_def getProperty_def)
  have b: "features ?s = []" "groupedPaths ?s = catalog0" "idsOf ?s = []"
    by (simp_all add: page0_def idsOf_def)
  show ?thesis
    using resolved_ids_deduplicated_on_insertion
      [of "''hierarchy:city_centre''" ?s "[IdNum 1, IdNum 2, IdNum 3, IdNum 3, IdNum 4, IdNum 5]"]
    unfolding b a by (simp add: dedupFirst_def handedOn_def)
qed

text \<open>
  A reference whose name is neither a key of the loaded dataset nor a property that
  objects inherit resolves to the empty list, and the call returns the state as it was:
  selection array and flags unchanged, no alert shown. So does a group reference under
  an inherited name.
\<close>

lemma unknown_reference_is_noop:
  "(\<not> knownHierarchy (groupedPaths s) h \<longrightarrow> h \<notin> set objectPrototypeNames \<longrightarrow>
      idsToSelect (groupedPaths s) (''hierarchy:'' @ h) = Inr []
      \<and> selectPathGroup (''hierarchy:'' @ h) s = Inr s)
   \<and> (\<not> knownPath (groupedPaths s) p \<longrightarrow>
      idsToSelect (groupedPaths s) (''path:'' @ p) = Inr []
      \<and> selectPathGroup (''path:'' @ p) s = Inr s)"
proof -
  have 1: "idsToSelect (groupedPaths s) (''hierarchy:'' @ h) = Inr []"
    if "\<not> knownHierarchy (groupedPaths s) h" "h \<notin> set objectPrototypeNames"
    using that unfolding idsToSelect_hierarchy
    by (auto simp: knownHierarchy_def getProperty_def split: option.splits)
  have 2: "idsToSelect (groupedPaths s) (''path:'' @ p) = Inr []"
    if "\<not> knownPath (groupedPaths s) p"
    using that unfolding idsToSelect_path
    by (auto simp: knownPath_def extractIdsFromPath_def getProperty_def split: option.splits)
  show ?thesis
    using 1 2 by (auto simp: selectPathGroup_def addMany_Nil)
qed


subsection \<open>Route generation\<close>

text \<open>
  C6. When the generate button is activated while the start point or the end point is
  unset, the handler shows the alert and does nothing else: no request is sent, and the
  state is the old one with the alert appended (selection, markers, rendered route and
  button unchanged).
\<close>

theorem generate_without_endpoints_only_alerts:
  assumes "startPoint s = None \<or> endPoint s = None"
  shows "generateOnclick s = s\<lparr>alerts := alerts s @ [''Please set both start and end points.'']\<rparr>
     \<and> inFlight (generateOnclick s) = inFlight s
     \<and> (\<not> buttonDisabled s \<longrightarrow> generateClick s = generateOnclick s)"
  using assms
  by (auto simp: generateOnclick_def generateClick_def alert_def split: option.splits)

theorem generate_without_endpoints_only_alerts_witness:
  "startPoint picked0 = None
   \<and> alerts (generateClick picked0) = [''Please set both start and end points.'']
   \<and> inFlight (generateClick picked0) = []
   \<and> buttonText (generateClick picked0) = ''Generate Route''
   \<and> features (generateClick picked0) = features picked0"
proof -
  have a: "startPoint picked0 = None" "alerts picked0 = []" "inFlight picked0 = []"
    "\<not> buttonDisabled picked0" "buttonText picked0 = ''Generate Route''"
    by (simp_all add: picked0_def handler_defs)
  show ?thesis
    using generate_without_endpoints_only_alerts [of picked0] a
    by simp
qed

text \<open>
  C2 does not hold of the script. The handler's \<^verbatim>\<open>finally\<close> block re-enables the
  button as soon as \<^verbatim>\<open>generateRoute\<close> has returned, which is before the request
  settles. With both markers set, one activation leaves one request in flight and the
  button enabled; a second activation sends a second request.
\<close>

theorem second_generate_click_sends_second_request:
  "inFlight (run [GenerateClick] ready0) =
     [\<lparr>req_start = (1, 2), req_end = (3, 4), following_weight = ''0.5'',
       preferred_routes = [IdNum 2]\<rparr>]
   \<and> \<not> buttonDisabled (run [GenerateClick] ready0)
   \<and> inFlight (run [GenerateClick, GenerateClick] ready0) =
     [\<lparr>req_start = (1, 2), req_end = (3, 4), following_weight = ''0.5'',
       preferred_routes = [IdNum 2]\<rparr>,
      \<lparr>req_start = (1, 2), req_end = (3, 4), following_weight = ''0.5'',
       preferred_routes = [IdNum 2]\<rparr>]"
  by (simp add: ready0_def picked0_def handler_defs)

text \<open>
  C8. When a request in flight settles with a body that has a \<^verbatim>\<open>geojson\<close> field,
  that geometry becomes the data of the route source, the formatted distance and time
  are written, and the panel is shown. When it settles with a bare feature collection,
  the body becomes the data of the route source; the two texts and the panel's
  visibility stay as they were.
\<close>

theorem route_response_applied:
  assumes "n < length (inFlight s)"
  shows "settle n (Ok (WithMetrics g d t)) s =
       s\<lparr>inFlight := splice1 n (inFlight s), routeData := g,
         routeDistance := distanceText d, routeTime := timeText t, routeInfoHidden := False\<rparr>
     \<and> settle n (Ok (Bare g)) s = s\<lparr>inFlight := splice1 n (inFlight s), routeData := g\<rparr>
     \<and> routeDistance (settle n (Ok (Bare g)) s) = routeDistance s
     \<and> routeTime (settle n (Ok (Bare g)) s) = routeTime s
     \<and> routeInfoHidden (settle n (Ok (Bare g)) s) = routeInfoHidden s"
  using assms by (simp add: routeSettled_def showRouteInfo_def settle_def)

theorem route_response_applied_witness:
  "0 < length (inFlight (run [GenerateClick] ready0))
   \<and> routeData (run [GenerateClick, Settle 0 (Ok (WithMetrics route0 2500 400))] ready0) = route0
   \<and> routeDistance (run [GenerateClick, Settle 0 (Ok (WithMetrics route0 2500 400))] ready0) = ''2.5 km''
   \<and> routeTime (run [GenerateClick, Settle 0 (Ok (WithMetrics route0 2500 400))] ready0) = ''7 min''
   \<and> \<not> routeInfoHidden (run [GenerateClick, Settle 0 (Ok (WithMetrics route0 2500 400))] ready0)
   \<and> routeData (run [GenerateClick, Settle 0 (Ok (Bare route0))] ready0) = route0
   \<and> routeDistance (run [GenerateClick, Settle 0 (Ok (Bare route0))] ready0) = []
   \<and> routeInfoHidden (run [GenerateClick, Settle 0 (Ok (Bare route0))] ready0)"
proof -
  let ?s = "run [GenerateClick] ready0"
  have s: "0 < length (inFlight ?s)" "routeDistance ?s = []" "routeInfoHidden ?s"
    by (simp_all add: ready0_def picked0_def handler_defs)
  have r: "run [GenerateClick, Settle 0 out] ready0 = settle 0 out ?s" for out
    by (simp add: run_def)
  show ?thesis
    unfolding r
    using route_response_applied [OF s(1), of route0 2500 400] s
    by (simp add: distanceText_examples timeText_examples)
qed

subsection \<open>Formatting of distance and time\<close>




end
